theory Spec2Isabelle
  imports Complex_Main "HOL-Library.Word"
begin

section \<open>Strings\<close>

text \<open>
  A JavaScript string is a sequence of UTF-16 code units, and the regular expressions of
  \<^verbatim>\<open>App.jsx\<close> (none has the \<^verbatim>\<open>u\<close> flag) work on code units. Every character the
  source names lies in the Basic Multilingual Plane, so it is one code unit.
  \<^verbatim>\<open>s.length\<close> is the length of the list.
\<close>

type_synonym jschar = "16 word"
type_synonym jsstring = "jschar list"

definition ascii :: "string \<Rightarrow> jsstring" where
  \<comment> \<open>an ASCII literal as code units\<close>
  "ascii s = map of_char s"

definition APOS :: jschar where "APOS = 0x27"         \<comment> \<open>the apostrophe\<close>
definition RSQUO :: jschar where "RSQUO = 0x2019"     \<comment> \<open>right single quotation mark\<close>
definition RDQUO :: jschar where "RDQUO = 0x201D"     \<comment> \<open>right double quotation mark\<close>
definition RAQUO :: jschar where "RAQUO = 0xBB"       \<comment> \<open>right-pointing double angle quotation mark\<close>
definition HYPHEN :: jschar where "HYPHEN = 0x2D"
definition EMDASH :: jschar where "EMDASH = 0x2014"
definition ENDASH :: jschar where "ENDASH = 0x2013"
definition ELLIPSIS :: jschar where "ELLIPSIS = 0x2026"
definition SPACE :: jschar where "SPACE = 0x20"

definition isAlnum :: "jschar \<Rightarrow> bool" where
  \<comment> \<open>the class \<^verbatim>\<open>[A-Za-z0-9]\<close>\<close>
  "isAlnum c \<longleftrightarrow>
     (0x41 \<le> c \<and> c \<le> 0x5A) \<or> (0x61 \<le> c \<and> c \<le> 0x7A) \<or> (0x30 \<le> c \<and> c \<le> 0x39)"

definition notAlnum :: "jschar \<Rightarrow> bool" where
  \<comment> \<open>the class \<^verbatim>\<open>[^A-Za-z0-9]\<close>\<close>
  "notAlnum c \<longleftrightarrow> \<not> isAlnum c"

definition isCoreChar :: "jschar \<Rightarrow> bool" where
  \<comment> \<open>the class \<^verbatim>\<open>[A-Za-z0-9'\<close>U+2019\<^verbatim>\<open>\-]\<close>\<close>
  "isCoreChar c \<longleftrightarrow> isAlnum c \<or> c = APOS \<or> c = RSQUO \<or> c = HYPHEN"

definition isSpace :: "jschar \<Rightarrow> bool" where
  \<comment> \<open>the class \<^verbatim>\<open>\s\<close> of ECMAScript: white space and line terminators\<close>
  "isSpace c \<longleftrightarrow>
     (0x09 \<le> c \<and> c \<le> 0x0D) \<or> c = 0x20 \<or> c = 0xA0 \<or> c = 0x1680 \<or>
     (0x2000 \<le> c \<and> c \<le> 0x200A) \<or> c = 0x2028 \<or> c = 0x2029 \<or> c = 0x202F \<or>
     c = 0x205F \<or> c = 0x3000 \<or> c = 0xFEFF"


section \<open>Optimal recognition point\<close>

text \<open>
  \<^verbatim>\<open>
  const getORPIndex = (word) => {
    const length = word.length;
    if (length <= 1) return 0;
    if (length <= 5) return 1;
    if (length <= 9) return 2;
    if (length <= 13) return 3;
    return 4;
  };
  \<close>
\<close>

definition getORPIndex :: "jsstring \<Rightarrow> nat" where
  "getORPIndex word =
     (let len = length word in
      if len \<le> 1 then 0
      else if len \<le> 5 then 1
      else if len \<le> 9 then 2
      else if len \<le> 13 then 3
      else 4)"


section \<open>Word decomposition\<close>

text \<open>
  \<^verbatim>\<open>
  const splitWord = (word) => {
    const match = word.match(/^([^A-Za-z0-9]*)([A-Za-z0-9][A-Za-z0-9'\<close>U+2019\<^verbatim>\<open>\-]*)([^A-Za-z0-9]*)$/);
    if (!match) {
      return { leading: "", core: word, trailing: "" };
    }
    return { leading: match[1], core: match[2], trailing: match[3] };
  };
  \<close>

  The pattern is anchored at both ends. Group 1 is greedy over non-alphanumerics and is
  followed by an alphanumeric, so it can only be the longest non-alphanumeric prefix.
  Group 2 is one alphanumeric and then, greedily, core characters; group 3 must take all
  that is left and none of it may be alphanumeric. Giving back characters of group 2
  only lengthens what group 3 has to take, so backtracking finds no match that the
  longest group 2 misses. \<open>splitWord\<close> below scans the word this way; the lemmas
  \<open>splitWord_regexMatch\<close> and \<open>splitWord_no_match\<close> relate it to the set of all
  matches of the pattern.
\<close>

record parts =
  leading :: jsstring
  core :: jsstring
  trailing :: jsstring

definition wholeWord :: "jsstring \<Rightarrow> parts" where
  \<comment> \<open>the \<^verbatim>\<open>!match\<close> branch\<close>
  "wholeWord word = \<lparr>leading = [], core = word, trailing = []\<rparr>"

definition splitWord :: "jsstring \<Rightarrow> parts" where
  "splitWord word =
     (let g1 = takeWhile notAlnum word in
      case dropWhile notAlnum word of
        [] \<Rightarrow> wholeWord word
      | c # cs \<Rightarrow>
          (let g2 = c # takeWhile isCoreChar cs;
               g3 = dropWhile isCoreChar cs
           in if list_all notAlnum g3
              then \<lparr>leading = g1, core = g2, trailing = g3\<rparr>
              else wholeWord word))"

definition regexMatch :: "jsstring \<Rightarrow> jsstring \<Rightarrow> jsstring \<Rightarrow> jsstring \<Rightarrow> bool" where
  \<comment> \<open>the three groups \<open>l\<close>, \<open>c\<close>, \<open>t\<close> are a match of the pattern against the whole word\<close>
  "regexMatch word l c t \<longleftrightarrow>
     word = l @ c @ t \<and> list_all notAlnum l \<and>
     (case c of [] \<Rightarrow> False | a # as \<Rightarrow> isAlnum a \<and> list_all isCoreChar as) \<and>
     list_all notAlnum t"

definition splits3 :: "jsstring \<Rightarrow> (jsstring \<times> jsstring \<times> jsstring) list" where
  \<comment> \<open>every way of cutting a word into three consecutive pieces\<close>
  "splits3 word =
     concat (map (\<lambda>i. map (\<lambda>j. (take i word, take (j - i) (drop i word), drop j word))
                          [i..<Suc (length word)])
                 [0..<Suc (length word)])"

definition hasShape :: "jsstring \<Rightarrow> bool" where
  \<comment> \<open>the word is a non-alphanumeric prefix, an alphanumeric-led run of core characters
      and a non-alphanumeric suffix, for some cut\<close>
  "hasShape word = list_ex (\<lambda>(l, c, t). regexMatch word l c t) (splits3 word)"


section \<open>Numbers\<close>

text \<open>
  A JavaScript number is an IEEE 754 double. A finite double is a real number; every
  decimal literal and every arithmetic operation yields the double nearest to the exact
  value, and of two equally near doubles the one with the even significand. A double has
  a significand of 53 bits; the least exponent of a unit in the last place is -1074.
  \<open>double\<close> is this rounding, below the overflow threshold (the quotients and products
  of the pacing are at most 156000). An integer enters a computation as the double that
  holds it: itself up to \<open>2 ^ 53\<close> in magnitude.
\<close>

function exponent :: "real \<Rightarrow> int" where
  \<comment> \<open>for \<open>0 < x\<close>, the \<open>e\<close> with \<open>2 ^ e \<le> x < 2 ^ (e + 1)\<close>\<close>
  "exponent x =
     (if 2 \<le> x then exponent (x / 2) + 1
      else if 0 < x \<and> x < 1 then exponent (x * 2) - 1
      else 0)"
  by pat_completeness auto
termination
proof (relation "measure (\<lambda>x. if 1 \<le> x then nat \<lfloor>x\<rfloor> else nat \<lfloor>1 / x\<rfloor> + 1)")
  show "wf (measure (\<lambda>x::real. if 1 \<le> x then nat \<lfloor>x\<rfloor> else nat \<lfloor>1 / x\<rfloor> + 1))"
    by simp
next
  fix x :: real
  assume x: "2 \<le> x"
  have "\<lfloor>x / 2\<rfloor> < \<lfloor>x\<rfloor>" using x by linarith
  moreover have "0 \<le> \<lfloor>x / 2\<rfloor>" using x by simp
  ultimately show
    "(x / 2, x) \<in> measure (\<lambda>x. if 1 \<le> x then nat \<lfloor>x\<rfloor> else nat \<lfloor>1 / x\<rfloor> + 1)"
    using x by simp
next
  fix x :: real
  assume "\<not> 2 \<le> x" and b: "0 < x \<and> x < 1"
  have inv: "1 < 1 / x" using b by simp
  show "(x * 2, x) \<in> measure (\<lambda>x. if 1 \<le> x then nat \<lfloor>x\<rfloor> else nat \<lfloor>1 / x\<rfloor> + 1)"
  proof (cases "1 \<le> x * 2")
    case True
    have "\<lfloor>x * 2\<rfloor> = 1" using True b by linarith
    moreover have "1 \<le> \<lfloor>1 / x\<rfloor>" using inv by linarith
    ultimately show ?thesis using True b by simp
  next
    case False
    then have "2 < 1 / x" using b by (simp add: field_simps)
    moreover have "1 / (x * 2) = (1 / x) / 2" by simp
    ultimately have "\<lfloor>1 / (x * 2)\<rfloor> < \<lfloor>1 / x\<rfloor>" by linarith
    moreover have "0 \<le> \<lfloor>1 / (x * 2)\<rfloor>" using b by simp
    ultimately show ?thesis using False b by simp
  qed
qed

definition roundHalfEven :: "real \<Rightarrow> int" where
  \<comment> \<open>the nearest integer, the even one of two equally near\<close>
  "roundHalfEven q =
     (let f = \<lfloor>q\<rfloor>; d = q - of_int f in
      if d < 1 / 2 then f
      else if 1 / 2 < d then f + 1
      else if even f then f else f + 1)"

definition pow2 :: "int \<Rightarrow> real" where
  "pow2 k = (if 0 \<le> k then 2 ^ nat k else 1 / 2 ^ nat (- k))"

definition double :: "real \<Rightarrow> real" where
  \<comment> \<open>the nearest double: a multiple of the unit in the last place of \<open>x\<close>\<close>
  "double x =
     (if x = 0 then 0
      else (let ulp = pow2 (max (exponent \<bar>x\<bar> - 52) (- 1074))
            in of_int (roundHalfEven (x / ulp)) * ulp))"

definition numberOfInt :: "int \<Rightarrow> real" where
  \<comment> \<open>the double that holds an integer\<close>
  "numberOfInt n = double (of_int n)"

definition jsDivide :: "real \<Rightarrow> real \<Rightarrow> real" where
  \<comment> \<open>\<^verbatim>\<open>a / b\<close> on doubles, for \<open>b \<noteq> 0\<close>\<close>
  "jsDivide a b = double (a / b)"

definition jsTimes :: "real \<Rightarrow> real \<Rightarrow> real" where
  \<comment> \<open>\<^verbatim>\<open>a * b\<close> on doubles\<close>
  "jsTimes a b = double (a * b)"


section \<open>Pacing\<close>

text \<open>
  \<^verbatim>\<open>
  const normalizeTrailingForPause = (trailing) => {
    if (!trailing) return "";
    return trailing.replace(/["'\<close>U+201D U+2019\<^verbatim>\<open>)\]\}\<close>U+00BB\<^verbatim>\<open>]+$/g, "");
  };

  const getPauseMultiplier = (word) => {
    const { trailing } = splitWord(word);
    const cleanedTrailing = normalizeTrailingForPause(trailing);
    if (/[.?!\<close>U+2026\<^verbatim>\<open>]+$/.test(cleanedTrailing)) return 2.6;
    if (/[:;]+$/.test(cleanedTrailing)) return 1.9;
    if (/,+$/.test(cleanedTrailing)) return 1.4;
    if (/\<close>U+2014\<^verbatim>\<open>|\<close>U+2013\<^verbatim>\<open>|--/.test(word)) return 1.6;
    return 1;
  };
  \<close>

  A search for \<^verbatim>\<open>[P]+$\<close> tries the start positions from left to right; at one of them
  the greedy run followed by the end anchor matches exactly when every code unit from
  there to the end is in the class. The function returns the doubles that its
  literals denote.
\<close>

definition isCloser :: "jschar \<Rightarrow> bool" where
  "isCloser c \<longleftrightarrow>
     c = 0x22 \<or> c = APOS \<or> c = RDQUO \<or> c = RSQUO \<or> c = 0x29 \<or> c = 0x5D \<or> c = 0x7D \<or> c = RAQUO"

definition isSentenceEnd :: "jschar \<Rightarrow> bool" where
  "isSentenceEnd c \<longleftrightarrow> c = 0x2E \<or> c = 0x3F \<or> c = 0x21 \<or> c = ELLIPSIS"

definition isColonSemi :: "jschar \<Rightarrow> bool" where
  "isColonSemi c \<longleftrightarrow> c = 0x3A \<or> c = 0x3B"

definition isComma :: "jschar \<Rightarrow> bool" where
  "isComma c \<longleftrightarrow> c = 0x2C"

definition isDash :: "jschar \<Rightarrow> bool" where
  \<comment> \<open>the class of the em dash and the en dash\<close>
  "isDash c \<longleftrightarrow> c = EMDASH \<or> c = ENDASH"

fun testRunAtEnd :: "(jschar \<Rightarrow> bool) \<Rightarrow> jsstring \<Rightarrow> bool" where
  \<comment> \<open>\<^verbatim>\<open>/[P]+$/.test(s)\<close>\<close>
  "testRunAtEnd P [] = False"
| "testRunAtEnd P (c # cs) = ((P c \<and> list_all P cs) \<or> testRunAtEnd P cs)"

fun removeRunAtEnd :: "(jschar \<Rightarrow> bool) \<Rightarrow> jsstring \<Rightarrow> jsstring" where
  \<comment> \<open>\<^verbatim>\<open>s.replace(/[P]+$/g, "")\<close>\<close>
  "removeRunAtEnd P [] = []"
| "removeRunAtEnd P (c # cs) = (if P c \<and> list_all P cs then [] else c # removeRunAtEnd P cs)"

fun testDash :: "jsstring \<Rightarrow> bool" where
  \<comment> \<open>the search for an em dash, an en dash or two hyphens\<close>
  "testDash [] = False"
| "testDash (c # cs) =
     (c = EMDASH \<or> c = ENDASH \<or>
      (c = HYPHEN \<and> (case cs of [] \<Rightarrow> False | d # _ \<Rightarrow> d = HYPHEN)) \<or>
      testDash cs)"

definition normalizeTrailingForPause :: "jsstring \<Rightarrow> jsstring" where
  "normalizeTrailingForPause tr =
     (if tr = [] then [] else removeRunAtEnd isCloser tr)"

definition getPauseMultiplier :: "jsstring \<Rightarrow> real" where
  "getPauseMultiplier word =
     (let cleanedTrailing = normalizeTrailingForPause (trailing (splitWord word)) in
      if testRunAtEnd isSentenceEnd cleanedTrailing then double 2.6
      else if testRunAtEnd isColonSemi cleanedTrailing then double 1.9
      else if testRunAtEnd isComma cleanedTrailing then double 1.4
      else if testDash word then double 1.6
      else double 1)"

text \<open>
  The multiplier as the specification words it, on the trailing fragment: a decimal
  number, not yet a double.
\<close>

definition endsIn :: "(jschar \<Rightarrow> bool) \<Rightarrow> jsstring \<Rightarrow> bool" where
  "endsIn P s \<longleftrightarrow> s \<noteq> [] \<and> P (last s)"

definition withoutTrailing :: "(jschar \<Rightarrow> bool) \<Rightarrow> jsstring \<Rightarrow> jsstring" where
  "withoutTrailing P s = rev (dropWhile P (rev s))"

definition containsDash :: "jsstring \<Rightarrow> bool" where
  "containsDash w \<longleftrightarrow>
     EMDASH \<in> set w \<or> ENDASH \<in> set w \<or> (HYPHEN, HYPHEN) \<in> set (zip w (tl w))"

definition pauseMultiplierSpec :: "jsstring \<Rightarrow> real" where
  "pauseMultiplierSpec w =
     (let t = withoutTrailing isCloser (trailing (splitWord w)) in
      if endsIn isSentenceEnd t then 2.6
      else if endsIn isColonSemi t then 1.9
      else if endsIn isComma t then 1.4
      else if containsDash w then 1.6
      else 1)"


section \<open>Normalisation\<close>

text \<open>
  \<^verbatim>\<open>
  const normalizeWords = (text) => {
    const normalized = text
      .replace(/([A-Za-z0-9])([\<close>U+2014 U+2013\<^verbatim>\<open>])([A-Za-z0-9])/g, "$1$2 $3")
      .replace(/\s*([\<close>U+2014 U+2013\<^verbatim>\<open>])\s*/g, " $1 ");

    return normalized
      .trim()
      .split(/\s+/)
      .filter((word) => splitWord(word).core.length > 0);
  };
  \<close>

  A global replace scans from the left and resumes after each match. The second pattern
  matches at a position exactly when the white space run starting there (possibly
  empty) is followed by a dash; it then also takes the white space after the dash.
  \<^verbatim>\<open>split\<close> cuts at every maximal run of white space and keeps empty pieces at either
  end; on the empty string it returns one empty piece.
\<close>

fun spaceAfterDash :: "jsstring \<Rightarrow> jsstring" where
  "spaceAfterDash (a # d # b # rest) =
     (if isAlnum a \<and> isDash d \<and> isAlnum b
      then a # d # SPACE # b # spaceAfterDash rest
      else a # spaceAfterDash (d # b # rest))"
| "spaceAfterDash s = s"

function surroundDash :: "jsstring \<Rightarrow> jsstring" where
  "surroundDash [] = []"
| "surroundDash (c # cs) =
     (case dropWhile isSpace (c # cs) of
        [] \<Rightarrow> c # surroundDash cs
      | d # rest \<Rightarrow>
          if isDash d then SPACE # d # SPACE # surroundDash (dropWhile isSpace rest)
          else c # surroundDash cs)"
  by pat_completeness auto
termination
proof (relation "measure length")
  fix c cs d rest
  assume "dropWhile isSpace (c # cs) = d # rest"
  then have "length (d # rest) \<le> length (c # cs)"
    by (metis length_dropWhile_le)
  moreover have "length (dropWhile isSpace rest) \<le> length rest"
    by (rule length_dropWhile_le)
  ultimately show "(dropWhile isSpace rest, c # cs) \<in> measure length"
    by simp
qed simp_all

definition trim :: "jsstring \<Rightarrow> jsstring" where
  "trim s = rev (dropWhile isSpace (rev (dropWhile isSpace s)))"

definition notSpace :: "jschar \<Rightarrow> bool" where
  "notSpace c \<longleftrightarrow> \<not> isSpace c"

function splitSpaces :: "jsstring \<Rightarrow> jsstring list" where
  "splitSpaces s =
     (case dropWhile notSpace s of
        [] \<Rightarrow> [takeWhile notSpace s]
      | c # rest \<Rightarrow> takeWhile notSpace s # splitSpaces (dropWhile isSpace rest))"
  by pat_completeness auto
termination
proof (relation "measure length")
  fix s c rest
  assume "dropWhile notSpace s = c # rest"
  then have "length (c # rest) \<le> length s"
    by (metis length_dropWhile_le)
  moreover have "length (dropWhile isSpace rest) \<le> length rest"
    by (rule length_dropWhile_le)
  ultimately show "(dropWhile isSpace rest, s) \<in> measure length"
    by simp
qed simp

definition candidates :: "jsstring \<Rightarrow> jsstring list" where
  \<comment> \<open>the pieces that reach the filter\<close>
  "candidates text = splitSpaces (trim (surroundDash (spaceAfterDash text)))"

definition normalizeWords :: "jsstring \<Rightarrow> jsstring list" where
  "normalizeWords text = filter (\<lambda>word. length (core (splitWord word)) > 0) (candidates text)"


section \<open>The reader's state\<close>

text \<open>
  The \<^verbatim>\<open>useState\<close> cells of the \<^verbatim>\<open>Reader\<close> component that the core reads and
  writes. A table-of-contents item is built by \<^verbatim>\<open>parseEpub\<close> alone, as
  \<^verbatim>\<open>{ label: tocMatch.label, index: currentWordIndex }\<close>, where
  \<^verbatim>\<open>currentWordIndex\<close> counts words from 0: its index is a natural number. The current
  index is an integer: it can be restored from storage as it was saved.
\<close>

record tocItem =
  label :: jsstring
  index :: nat

record reader =
  words :: "jsstring list"
  currentIndex :: int
  isPlaying :: bool
  wpm :: int
  altReadingMode :: bool
  bookmarks :: "int list"
  toc :: "tocItem list"
  isLoading :: bool
  contextLineChars :: int

definition initialReader :: reader where
  \<comment> \<open>the initial values of the cells\<close>
  "initialReader =
     \<lparr>words = [], currentIndex = 0, isPlaying = False, wpm = 300, altReadingMode = False,
      bookmarks = [], toc = [], isLoading = True, contextLineChars = 42\<rparr>"


section \<open>Chapter starts\<close>




section \<open>Playback\<close>

text \<open>
  \<^verbatim>\<open>
  const togglePlay = useCallback(() => setIsPlaying(p => !p), []);

  useEffect(() => {
      if (!isPlaying || wpm <= 0 || words.length === 0) {
          clearTimeout(timeoutRef.current);
          return;
      }
      const current = words[currentIndex] || "";
      const ms = (60000 / wpm) * getPauseMultiplier(current);
      timeoutRef.current = setTimeout(() => {
          setCurrentIndex(prev => {
              if (prev >= words.length - 1) {
                  setIsPlaying(false);
                  return prev;
              }
              if (chapterStarts.length > 1) {
                  let nextStart = null;
                  for (let i = 0; i < chapterStarts.length; i += 1) {
                      if (chapterStarts[i] > prev) {
                          nextStart = chapterStarts[i];
                          break;
                      }
                  }
                  if (nextStart !== null) {
                      const chapterEnd = nextStart - 1;
                      if (prev >= chapterEnd) {
                          return nextStart;
                      }
                  }
              }
              return prev + 1;
          });
      }, ms);
      return () => clearTimeout(timeoutRef.current);
  }, [isPlaying, wpm, words.length, currentIndex, chapterStarts]);
  \<close>

  The effect either sets no timer or sets one with a delay; \<open>scheduledDelay\<close> is that
  delay and \<open>tick\<close> is the state after the timer's callback has run.
\<close>

definition togglePlay :: "reader \<Rightarrow> reader" where
  "togglePlay st = st\<lparr>isPlaying := \<not> isPlaying st\<rparr>"

definition currentWord :: "reader \<Rightarrow> jsstring" where
  \<comment> \<open>\<^verbatim>\<open>words[currentIndex] || ""\<close>: a read out of range is \<^verbatim>\<open>undefined\<close>, replaced by
      the empty string\<close>
  "currentWord st =
     (if 0 \<le> currentIndex st \<and> currentIndex st < int (length (words st))
      then words st ! nat (currentIndex st) else [])"

definition ms :: "jsstring \<Rightarrow> int \<Rightarrow> real" where
  \<comment> \<open>\<^verbatim>\<open>(60000 / wpm) * getPauseMultiplier(current)\<close>, computed only where \<^verbatim>\<open>wpm > 0\<close>\<close>
  "ms current r = jsTimes (jsDivide 60000 (numberOfInt r)) (getPauseMultiplier current)"

definition scheduledDelay :: "reader \<Rightarrow> real option" where
  "scheduledDelay st =
     (if \<not> isPlaying st \<or> wpm st \<le> 0 \<or> length (words st) = 0 then None
      else Some (ms (currentWord st) (wpm st)))"





section \<open>Context lines\<close>

text \<open>
  \<^verbatim>\<open>
  const contextLines = useMemo(() => {
    if (!altReadingMode || words.length === 0) return [];
    const maxChars = Math.max(18, contextLineChars);
    const linesBefore = 3;
    const linesAfter = 3;
    let left = currentIndex - 1;
    let right = currentIndex + 1;

    const before = [];
    let leftIdx = left;
    for (let i = 0; i < linesBefore && leftIdx >= 0; i += 1) {
      const lineWords = [];
      let len = 0;
      while (leftIdx >= 0) {
        const w = words[leftIdx];
        const add = w.length + (len > 0 ? 1 : 0);
        if (len + add > maxChars && len > 0) break;
        lineWords.unshift(w);
        len += add;
        leftIdx -= 1;
      }
      if (lineWords.length > 0) before.push({ text: lineWords.join(" "), distance: i + 1 });
    }
    before.reverse();

    const after = [];
    let rightIdx = right;
    for (let i = 0; i < linesAfter && rightIdx < words.length; i += 1) {
      const lineWords = [];
      let len = 0;
      while (rightIdx < words.length) {
        const w = words[rightIdx];
        const add = w.length + (len > 0 ? 1 : 0);
        if (len + add > maxChars && len > 0) break;
        lineWords.push(w);
        len += add;
        rightIdx += 1;
      }
      if (lineWords.length > 0) after.push({ text: lineWords.join(" "), distance: i + 1 });
    }

    return { before, after };
  }, [altReadingMode, words, currentIndex, contextLineChars]);
  \<close>

  A read of \<^verbatim>\<open>words\<close> out of range is \<^verbatim>\<open>undefined\<close>, and \<^verbatim>\<open>w.length\<close> then throws a
  \<^verbatim>\<open>TypeError\<close>. Each \<^verbatim>\<open>while\<close> loop is a function that returns the line's words and
  the index it stopped at; each \<^verbatim>\<open>for\<close> loop is a function of its counter.
\<close>

datatype jserror = TypeError | SyntaxError | ParseError

record line =
  lineText :: jsstring
  distance :: nat

datatype contextResult = NoLines | Lines "line list" "line list"

fun joinSpace :: "jsstring list \<Rightarrow> jsstring" where
  \<comment> \<open>\<^verbatim>\<open>lineWords.join(" ")\<close>\<close>
  "joinSpace [] = []"
| "joinSpace [w] = w"
| "joinSpace (w # ws) = w @ SPACE # joinSpace ws"

function lineBefore ::
  "jsstring list \<Rightarrow> int \<Rightarrow> int \<Rightarrow> jsstring list \<Rightarrow> int \<Rightarrow> jserror + (jsstring list \<times> int)" where
  "lineBefore ws maxChars leftIdx lineWords len =
     (if leftIdx \<ge> 0 then
        (if leftIdx < int (length ws) then
           (let w = ws ! nat leftIdx;
                add = int (length w) + (if len > 0 then 1 else 0)
            in if len + add > maxChars \<and> len > 0 then Inr (lineWords, leftIdx)
               else lineBefore ws maxChars (leftIdx - 1) (w # lineWords) (len + add))
         else Inl TypeError)
      else Inr (lineWords, leftIdx))"
  by pat_completeness auto
termination
  by (relation "measure (\<lambda>(ws, maxChars, leftIdx, lineWords, len). nat (leftIdx + 1))") auto

function linesBefore ::
  "jsstring list \<Rightarrow> int \<Rightarrow> nat \<Rightarrow> int \<Rightarrow> line list \<Rightarrow> jserror + line list" where
  "linesBefore ws maxChars i leftIdx beforeLines =
     (if i < 3 \<and> leftIdx \<ge> 0 then
        (case lineBefore ws maxChars leftIdx [] 0 of
           Inl e \<Rightarrow> Inl e
         | Inr (lineWords, leftIdx') \<Rightarrow>
             linesBefore ws maxChars (i + 1) leftIdx'
               (if length lineWords > 0
                then beforeLines @ [\<lparr>lineText = joinSpace lineWords, distance = i + 1\<rparr>]
                else beforeLines))
      else Inr beforeLines)"
  by pat_completeness auto
termination
  by (relation "measure (\<lambda>(ws, maxChars, i, leftIdx, beforeLines). 3 - i)") auto

function lineAfter ::
  "jsstring list \<Rightarrow> int \<Rightarrow> int \<Rightarrow> jsstring list \<Rightarrow> int \<Rightarrow> jserror + (jsstring list \<times> int)" where
  "lineAfter ws maxChars rightIdx lineWords len =
     (if rightIdx < int (length ws) then
        (if rightIdx \<ge> 0 then
           (let w = ws ! nat rightIdx;
                add = int (length w) + (if len > 0 then 1 else 0)
            in if len + add > maxChars \<and> len > 0 then Inr (lineWords, rightIdx)
               else lineAfter ws maxChars (rightIdx + 1) (lineWords @ [w]) (len + add))
         else Inl TypeError)
      else Inr (lineWords, rightIdx))"
  by pat_completeness auto
termination
  by (relation "measure (\<lambda>(ws, maxChars, rightIdx, lineWords, len). nat (int (length ws) - rightIdx))")
    auto

function linesAfter ::
  "jsstring list \<Rightarrow> int \<Rightarrow> nat \<Rightarrow> int \<Rightarrow> line list \<Rightarrow> jserror + line list" where
  "linesAfter ws maxChars i rightIdx afterLines =
     (if i < 3 \<and> rightIdx < int (length ws) then
        (case lineAfter ws maxChars rightIdx [] 0 of
           Inl e \<Rightarrow> Inl e
         | Inr (lineWords, rightIdx') \<Rightarrow>
             linesAfter ws maxChars (i + 1) rightIdx'
               (if length lineWords > 0
                then afterLines @ [\<lparr>lineText = joinSpace lineWords, distance = i + 1\<rparr>]
                else afterLines))
      else Inr afterLines)"
  by pat_completeness auto
termination
  by (relation "measure (\<lambda>(ws, maxChars, i, rightIdx, afterLines). 3 - i)") auto

definition contextLines :: "reader \<Rightarrow> jserror + contextResult" where
  "contextLines st =
     (if \<not> altReadingMode st \<or> length (words st) = 0 then Inr NoLines
      else
        (let maxChars = max 18 (contextLineChars st);
             left = currentIndex st - 1;
             right = currentIndex st + 1
         in case linesBefore (words st) maxChars 0 left [] of
              Inl e \<Rightarrow> Inl e
            | Inr beforeLines \<Rightarrow>
                (case linesAfter (words st) maxChars 0 right [] of
                   Inl e \<Rightarrow> Inl e
                 | Inr afterLines \<Rightarrow> Inr (Lines (rev beforeLines) afterLines))))"

definition lineWithin :: "jsstring list \<Rightarrow> int \<Rightarrow> line \<Rightarrow> bool" where
  \<comment> \<open>the line's text fits the limit, or the line is one token of the stream\<close>
  "lineWithin ws limit l \<longleftrightarrow> int (length (lineText l)) \<le> limit \<or> lineText l \<in> set ws"


section \<open>Restoring the reading position\<close>

text \<open>
  \<^verbatim>\<open>
  const parseBook = async () => {
      try {
         let resultWords = [];
         let resultToc = [];
         if (book.type === 'epub') {
             const res = await parseEpub(book.fileBlob);
             resultWords = res.words;
             resultToc = res.toc;
         } else {
             resultWords = await parseText(book.fileBlob);
         }
         setWords(resultWords);
         setToc(resultToc);

         // Restore location
         const saved = JSON.parse(localStorage.getItem(`speedreader-progress-${book.id}`));
         if (saved) {
             if (saved.currentIndex) setCurrentIndex(saved.currentIndex);
             if (saved.bookmarks) setBookmarks(saved.bookmarks);
         }
         setIsLoading(false);
      } catch (e) {
          console.error(e);
          alert("Error parsing book content.");
          onBack();
      }
  };
  \<close>

  The storage and the parsers are outside the core. What the storage holds under the
  book's key is a parameter: nothing (\<^verbatim>\<open>getItem\<close> returns \<^verbatim>\<open>null\<close>, which
  \<^verbatim>\<open>JSON.parse\<close> returns as \<^verbatim>\<open>null\<close>), a text that is not JSON (\<^verbatim>\<open>JSON.parse\<close> throws a
  \<^verbatim>\<open>SyntaxError\<close>), or a record of the shape the reader itself writes,
  \<^verbatim>\<open>{ currentIndex, bookmarks }\<close>, each field a number or a list of numbers, or
  absent. The parsers' outcome is a parameter too: an error, or the words and the table
  of contents.
\<close>

record saved =
  savedCurrentIndex :: "int option"
  savedBookmarks :: "int list option"

datatype stored = Missing | Corrupt | Record saved

datatype outcome = Opened reader | Back

definition jsonParse :: "stored \<Rightarrow> jserror + saved option" where
  "jsonParse s = (case s of Missing \<Rightarrow> Inr None | Corrupt \<Rightarrow> Inl SyntaxError | Record r \<Rightarrow> Inr (Some r))"

definition restoreLocation :: "saved option \<Rightarrow> reader \<Rightarrow> reader" where
  \<comment> \<open>a number is truthy unless it is 0; an array is truthy, also when it is empty\<close>
  "restoreLocation sv st =
     (case sv of
        None \<Rightarrow> st
      | Some r \<Rightarrow>
          (let st1 = (case savedCurrentIndex r of
                        None \<Rightarrow> st
                      | Some i \<Rightarrow> if i \<noteq> 0 then st\<lparr>currentIndex := i\<rparr> else st)
           in case savedBookmarks r of
                None \<Rightarrow> st1
              | Some bs \<Rightarrow> st1\<lparr>bookmarks := bs\<rparr>))"

definition parseBook ::
  "jserror + (jsstring list \<times> tocItem list) \<Rightarrow> stored \<Rightarrow> reader \<Rightarrow> outcome" where
  "parseBook parsed s st =
     (case parsed of
        Inl e \<Rightarrow> Back
      | Inr (resultWords, resultToc) \<Rightarrow>
          (let st1 = st\<lparr>words := resultWords, toc := resultToc\<rparr> in
           case jsonParse s of
             Inl e \<Rightarrow> Back
           | Inr sv \<Rightarrow> Opened ((restoreLocation sv st1)\<lparr>isLoading := False\<rparr>)))"



section \<open>Fixtures\<close>

text \<open>
  The scenarios of the specification's testable properties, as states of the reader: a
  stream of six tokens with chapter starts 0 and 4, playing at position 3 and at the last
  position 5.
\<close>

definition chapterFixture :: reader where
  "chapterFixture =
     initialReader\<lparr>words := map ascii [''one'', ''two'', ''three'', ''four.'', ''five'', ''six''],
                   currentIndex := 3, isPlaying := True,
                   toc := [\<lparr>label = ascii ''II'', index = 4\<rparr>]\<rparr>"



definition paceFixture :: reader where
  "paceFixture = initialReader\<lparr>words := [ascii ''pause,''], isPlaying := True, wpm := 700\<rparr>"

text \<open>
  The context composer's scenario: the tokens \<open>a\<close>, \<open>bb\<close>, \<open>ccc\<close>, \<open>dddd\<close>, \<open>e\<close>,
  position 2, alternate reading mode, 5 characters per line.
\<close>

definition composeFixture :: reader where
  "composeFixture =
     initialReader\<lparr>words := map ascii [''a'', ''bb'', ''ccc'', ''dddd'', ''e''],
                   currentIndex := 2, altReadingMode := True, contextLineChars := 5\<rparr>"


section \<open>Evaluation and the character classes\<close>

lemmas char_defs =
  APOS_def RSQUO_def RDQUO_def RAQUO_def HYPHEN_def EMDASH_def ENDASH_def ELLIPSIS_def SPACE_def

lemmas class_defs =
  notAlnum_def isAlnum_def isCoreChar_def isSpace_def notSpace_def isDash_def isCloser_def
  isSentenceEnd_def isColonSemi_def isComma_def char_defs


section \<open>Properties of the decomposition\<close>

lemma splitWord_Nil: "dropWhile notAlnum w = [] \<Longrightarrow> splitWord w = wholeWord w"
  unfolding splitWord_def by (simp only: list.case Let_def)

lemma splitWord_Cons:
  "dropWhile notAlnum w = c # cs \<Longrightarrow>
   splitWord w =
     (if list_all notAlnum (dropWhile isCoreChar cs)
      then \<lparr>leading = takeWhile notAlnum w, core = c # takeWhile isCoreChar cs,
            trailing = dropWhile isCoreChar cs\<rparr>
      else wholeWord w)"
  unfolding splitWord_def by (simp only: list.case Let_def)

lemma splitWord_parts: "leading (splitWord w) @ core (splitWord w) @ trailing (splitWord w) = w"
proof (cases "dropWhile notAlnum w")
  case Nil
  then show ?thesis by (simp add: splitWord_Nil wholeWord_def)
next
  case (Cons c cs)
  have "takeWhile notAlnum w @ c # takeWhile isCoreChar cs @ dropWhile isCoreChar cs = w"
    using Cons by (metis takeWhile_dropWhile_id)
  then show ?thesis
    by (simp add: splitWord_Cons [OF Cons] wholeWord_def)
qed

lemma splitWord_core_empty: "core (splitWord w) = [] \<longleftrightarrow> w = []"
proof (cases "dropWhile notAlnum w")
  case Nil
  then show ?thesis by (simp add: splitWord_Nil wholeWord_def)
next
  case (Cons c cs)
  then have "w \<noteq> []" by auto
  then show ?thesis
    by (simp add: splitWord_Cons [OF Cons] wholeWord_def)
qed

lemma splitWord_no_alnum: "\<not> list_ex isAlnum w \<Longrightarrow> splitWord w = wholeWord w"
proof -
  assume "\<not> list_ex isAlnum w"
  then have "\<forall>x\<in>set w. notAlnum x" by (simp add: list_ex_iff notAlnum_def)
  then have "dropWhile notAlnum w = []" by simp
  then show ?thesis by (rule splitWord_Nil)
qed

text \<open>
  Whatever match of the pattern there is, the scan returns the one that the greedy
  quantifiers prefer: group 1 is the same in all of them, and group 2 is extended by
  every core character that follows it.
\<close>

lemma splitWord_regexMatch:
  assumes "regexMatch w l c t"
  shows "splitWord w = \<lparr>leading = l, core = c @ takeWhile isCoreChar t,
                        trailing = dropWhile isCoreChar t\<rparr>"
proof -
  from assms obtain a as where c: "c = a # as" and a: "isAlnum a" and as: "list_all isCoreChar as"
    and w: "w = l @ c @ t" and l: "list_all notAlnum l" and t: "list_all notAlnum t"
    by (auto simp: regexMatch_def split: list.splits)
  have tw: "takeWhile notAlnum w = l" and dw: "dropWhile notAlnum w = a # as @ t"
    using l a by (simp_all add: w c list_all_iff notAlnum_def takeWhile_append2 dropWhile_append2)
  have as': "\<And>x. x \<in> set as \<Longrightarrow> isCoreChar x" using as by (simp add: list_all_iff)
  have t1: "takeWhile isCoreChar (as @ t) = as @ takeWhile isCoreChar t"
    using as' by (simp add: takeWhile_append2)
  have t2: "dropWhile isCoreChar (as @ t) = dropWhile isCoreChar t"
    using as' by (simp add: dropWhile_append2)
  have "set (dropWhile isCoreChar t) \<subseteq> set t" by (rule set_dropWhileD[THEN subsetI]) 
  then have t3: "list_all notAlnum (dropWhile isCoreChar t)"
    using t by (auto simp: list_all_iff)
  show ?thesis
    by (simp add: splitWord_Cons [OF dw] t1 t2 t3 tw c)
qed

lemma splitWord_sound:
  "splitWord w = wholeWord w \<or> regexMatch w (leading (splitWord w)) (core (splitWord w)) (trailing (splitWord w))"
proof (cases "dropWhile notAlnum w")
  case Nil
  then show ?thesis by (simp add: splitWord_Nil)
next
  case (Cons c cs)
  have c: "isAlnum c" using Cons by (metis dropWhile_eq_Cons_conv notAlnum_def)
  have "takeWhile notAlnum w @ c # takeWhile isCoreChar cs @ dropWhile isCoreChar cs = w"
    using Cons by (metis takeWhile_dropWhile_id)
  moreover have "list_all notAlnum (takeWhile notAlnum w)" "list_all isCoreChar (takeWhile isCoreChar cs)"
    by (auto simp: list_all_iff dest: set_takeWhileD)
  ultimately show ?thesis using c
    by (auto simp add: splitWord_Cons [OF Cons] regexMatch_def)
qed

lemma splits3_iff: "(l, c, t) \<in> set (splits3 w) \<longleftrightarrow> w = l @ c @ t"
proof
  assume "(l, c, t) \<in> set (splits3 w)"
  then obtain i j where "i \<le> j" "l = take i w" "c = take (j - i) (drop i w)" "t = drop j w"
    by (auto simp: splits3_def simp del: upt_Suc)
  then show "w = l @ c @ t"
    by (metis append_take_drop_id drop_drop le_add_diff_inverse2)
next
  assume w: "w = l @ c @ t"
  let ?i = "length l" and ?j = "length l + length c"
  let ?f = "\<lambda>i j. (take i w, take (j - i) (drop i w), drop j w)"
  have e: "(l, c, t) = ?f ?i ?j" by (simp add: w)
  have j: "?j \<in> set [?i..<Suc (length w)]" by (simp add: w)
  have i: "?i \<in> set [0..<Suc (length w)]" by (simp add: w)
  have "(l, c, t) \<in> ?f ?i ` set [?i..<Suc (length w)]"
    using e j by (rule image_eqI)
  then have "(l, c, t) \<in> (\<Union>i\<in>set [0..<Suc (length w)]. ?f i ` set [i..<Suc (length w)])"
    using i by (rule UN_I [rotated])
  then show "(l, c, t) \<in> set (splits3 w)"
    by (simp add: splits3_def del: upt_Suc)
qed

lemma hasShape_iff: "hasShape w \<longleftrightarrow> (\<exists>l c t. regexMatch w l c t)"
proof
  assume "hasShape w"
  then show "\<exists>l c t. regexMatch w l c t" by (auto simp: hasShape_def list_ex_iff)
next
  assume "\<exists>l c t. regexMatch w l c t"
  then obtain l c t where m: "regexMatch w l c t" by blast
  then have "(l, c, t) \<in> set (splits3 w)" by (simp add: splits3_iff regexMatch_def)
  with m show "hasShape w" by (auto simp: hasShape_def list_ex_iff)
qed

lemma splitWord_no_match: "\<not> hasShape w \<Longrightarrow> splitWord w = wholeWord w"
  using splitWord_sound [of w] by (auto simp: hasShape_iff)


subsection \<open>The ORP table\<close>

text \<open>
  C3. The ORP index of a core string depends on its length \<open>L\<close> alone: it is 0 for
  \<open>L \<le> 1\<close>, 1 for \<open>L \<le> 5\<close>, 2 for \<open>L \<le> 9\<close>, 3 for \<open>L \<le> 13\<close> and 4 for every
  longer string. This holds for the empty string too.
\<close>

theorem getORPIndex_table:
  "getORPIndex c =
     (if length c \<le> 1 then 0
      else if length c \<le> 5 then 1
      else if length c \<le> 9 then 2
      else if length c \<le> 13 then 3
      else 4)"
  by (simp add: getORPIndex_def)

theorem getORPIndex_table_witness:
  "getORPIndex (ascii ''I'') = 0 \<and> getORPIndex (ascii ''words'') = 1 \<and>
   getORPIndex (ascii ''reading'') = 2 \<and> getORPIndex (ascii ''recognition'') = 3 \<and>
   getORPIndex (ascii ''representations'') = 4"
  using getORPIndex_table [of "ascii ''I''"] getORPIndex_table [of "ascii ''words''"]
    getORPIndex_table [of "ascii ''reading''"] getORPIndex_table [of "ascii ''recognition''"]
    getORPIndex_table [of "ascii ''representations''"]
  by (simp add: ascii_def)


subsection \<open>Round trip\<close>

text \<open>
  C4. For every non-empty token, the three fragments of its decomposition concatenate to
  the token and the core is not empty; if the token has no alphanumeric character, the
  leading and trailing fragments are empty and the core is the whole token.
\<close>

theorem splitWord_roundtrip:
  assumes "t \<noteq> []"
  shows "leading (splitWord t) @ core (splitWord t) @ trailing (splitWord t) = t \<and>
         core (splitWord t) \<noteq> [] \<and>
         (\<not> list_ex isAlnum t \<longrightarrow>
            leading (splitWord t) = [] \<and> core (splitWord t) = t \<and> trailing (splitWord t) = [])"
proof -
  have "core (splitWord t) \<noteq> []"
    using assms by (simp add: splitWord_core_empty)
  moreover have "leading (splitWord t) = [] \<and> core (splitWord t) = t \<and> trailing (splitWord t) = []"
    if "\<not> list_ex isAlnum t"
    using splitWord_no_alnum [OF that] by (simp add: wholeWord_def)
  ultimately show ?thesis
    by (simp add: splitWord_parts)
qed

theorem splitWord_roundtrip_witness:
  "ascii ''...'' \<noteq> [] \<and> \<not> list_ex isAlnum (ascii ''...'') \<and>
   leading (splitWord (ascii ''...'')) = [] \<and> core (splitWord (ascii ''...'')) = ascii ''...'' \<and>
   trailing (splitWord (ascii ''...'')) = [] \<and>
   leading (splitWord (ascii ''(word),'')) @ core (splitWord (ascii ''(word),'')) @
     trailing (splitWord (ascii ''(word),'')) = ascii ''(word),'' \<and>
   core (splitWord (ascii ''(word),'')) \<noteq> []"
proof -
  have a: "ascii ''...'' \<noteq> []" and b: "\<not> list_ex isAlnum (ascii ''...'')"
    and c: "ascii ''(word),'' \<noteq> []"
    by (simp_all add: ascii_def isAlnum_def)
  show ?thesis
    using a b splitWord_roundtrip [OF a] splitWord_roundtrip [OF c] by simp
qed


subsection \<open>Fixtures\<close>

text \<open>
  C7, as amended. \<open>word.\<close> decomposes into an empty leading fragment, the core \<open>word\<close>
  and the trailing fragment \<open>.\<close>; a dash followed by \<open>word\<close> into the dash, \<open>word\<close> and
  an empty trailing fragment; and \<open>'Tis\<close> into the leading apostrophe, the core \<open>Tis\<close>
  and an empty trailing fragment: the core starts at the first alphanumeric character.
\<close>

theorem splitWord_fixtures:
  "splitWord (ascii ''word.'') = \<lparr>leading = [], core = ascii ''word'', trailing = ascii ''.''\<rparr> \<and>
   splitWord (EMDASH # ascii ''word'') = \<lparr>leading = [EMDASH], core = ascii ''word'', trailing = []\<rparr> \<and>
   splitWord (APOS # ascii ''Tis'') = \<lparr>leading = [APOS], core = ascii ''Tis'', trailing = []\<rparr>"
  by (simp add: splitWord_def wholeWord_def ascii_def class_defs)

text \<open>
  C7, as stated, fails at its third fixture: the decomposition of \<open>'Tis\<close> does not have
  an empty leading fragment and the core \<open>'Tis\<close>.
\<close>

theorem splitWord_Tis_counterexample:
  "splitWord (APOS # ascii ''Tis'') \<noteq>
     \<lparr>leading = [], core = APOS # ascii ''Tis'', trailing = []\<rparr>"
  by (simp add: splitWord_def wholeWord_def ascii_def class_defs)


subsection \<open>The whole-token fallback\<close>

text \<open>
  C10. A token that contains an alphanumeric character but is not, for any cut, a
  non-alphanumeric prefix followed by an alphanumeric-led run of alphanumerics,
  apostrophes and hyphens followed by a non-alphanumeric suffix, decomposes into itself
  as the core, with empty leading and trailing fragments.
\<close>

theorem splitWord_fallback:
  assumes "list_ex isAlnum t" and "\<not> hasShape t"
  shows "splitWord t = \<lparr>leading = [], core = t, trailing = []\<rparr>"
  using splitWord_no_match [OF assms(2)] by (simp add: wholeWord_def)

theorem splitWord_fallback_witness:
  "list_ex isAlnum (ascii ''ab.cd'') \<and> \<not> hasShape (ascii ''ab.cd'') \<and>
   splitWord (ascii ''ab.cd'') = \<lparr>leading = [], core = ascii ''ab.cd'', trailing = []\<rparr> \<and>
   list_ex isAlnum (ascii ''a'' @ APOS # ascii ''b!c'') \<and>
   \<not> hasShape (ascii ''a'' @ APOS # ascii ''b!c'') \<and>
   splitWord (ascii ''a'' @ APOS # ascii ''b!c'') =
     \<lparr>leading = [], core = ascii ''a'' @ APOS # ascii ''b!c'', trailing = []\<rparr>"
proof -
  have a: "list_ex isAlnum (ascii ''ab.cd'')"
    and b: "list_ex isAlnum (ascii ''a'' @ APOS # ascii ''b!c'')"
    by (simp_all add: ascii_def class_defs)
  have c: "\<not> hasShape (ascii ''ab.cd'')"
    and d: "\<not> hasShape (ascii ''a'' @ APOS # ascii ''b!c'')"
    by (simp_all add: hasShape_def splits3_def regexMatch_def ascii_def class_defs upt_rec)
  show ?thesis
    using a b c d splitWord_fallback [OF a c] splitWord_fallback [OF b d] by simp
qed


section \<open>Properties of the pacing\<close>

text \<open>
  The three searches of \<open>getPauseMultiplier\<close> and the replacement of
  \<open>normalizeTrailingForPause\<close> compute what the specification words: the last code unit
  of a non-empty string is in the class, the longest suffix in the class is removed, the
  word contains a dash.
\<close>

lemma testRunAtEnd_endsIn: "testRunAtEnd P s \<longleftrightarrow> endsIn P s"
proof (induction s)
  case Nil
  show ?case by (simp add: endsIn_def)
next
  case (Cons c cs)
  show ?case
  proof (cases cs)
    case Nil
    then show ?thesis by (simp add: endsIn_def)
  next
    case (Cons d ds)
    then have "list_all P cs \<Longrightarrow> P (last cs)"
      by (simp add: list_all_iff)
    with Cons.IH Cons show ?thesis
      by (auto simp: endsIn_def)
  qed
qed

lemma removeRunAtEnd_withoutTrailing: "removeRunAtEnd P s = withoutTrailing P s"
  by (induction s) (auto simp: withoutTrailing_def dropWhile_append list_all_iff)

lemma testDash_containsDash: "testDash w \<longleftrightarrow> containsDash w"
proof (induction w)
  case Nil
  show ?case by (simp add: containsDash_def)
next
  case (Cons c cs)
  then show ?case
    by (cases cs) (auto simp: containsDash_def)
qed

lemma normalizeTrailingForPause_eq: "normalizeTrailingForPause tr = withoutTrailing isCloser tr"
  by (simp add: normalizeTrailingForPause_def removeRunAtEnd_withoutTrailing withoutTrailing_def)

lemma getPauseMultiplier_spec: "getPauseMultiplier w = double (pauseMultiplierSpec w)"
  unfolding getPauseMultiplier_def pauseMultiplierSpec_def normalizeTrailingForPause_eq
    testRunAtEnd_endsIn testDash_containsDash Let_def
  by simp

lemmas pause_eval =
  getPauseMultiplier_def normalizeTrailingForPause_def splitWord_def wholeWord_def ascii_def
  class_defs

lemmas number_eval =
  jsTimes_def jsDivide_def numberOfInt_def double_def pow2_def roundHalfEven_def


text \<open>
  The rounding on known values: a double is its own rounding, and \<^verbatim>\<open>0.1 + 0.2\<close> is
  \<^verbatim>\<open>0.30000000000000004\<close>, the double above the one that \<^verbatim>\<open>0.3\<close> denotes.
\<close>

lemma double_examples:
  "double 60000 = 60000 \<and> double 0.5 = 0.5 \<and> double (- 2.5) = - 2.5 \<and>
   double (double 0.1 + double 0.2) = 1351079888211149 / 2 ^ 52 \<and>
   double 0.3 = 5404319552844595 / 2 ^ 54"
  by (simp add: number_eval)


text \<open>
  C1, as amended. Whenever a tick is scheduled (playing, rate above 0, a non-empty
  stream), its delay is the double-precision value of \<open>(60000 / rate) * m\<close>: the quotient
  rounded to the nearest double, times the double nearest to the multiplier \<open>m\<close> of the
  current word, rounded to the nearest double again. The multiplier is 2.6 if the
  trailing fragment, with its closing quotes and brackets stripped from the end, ends in
  one of \<open>. ? !\<close> or the ellipsis; else 1.9 if it ends in \<open>:\<close> or \<open>;\<close>; else 1.4 if it ends
  in a comma; else 1.6 if the word contains an em dash, an en dash or two hyphens in a
  row; else 1. At 600 words per minute the delay is exactly 260 for \<open>end.\<close>, 140 for
  \<open>pause,\<close> and 260 for \<open>quote.\<close> followed by a double quote.
\<close>

theorem pause_delay:
  assumes "isPlaying st" and "0 < wpm st" and "words st \<noteq> []"
  shows "scheduledDelay st =
           Some (double (double (60000 / numberOfInt (wpm st)) *
                         double (pauseMultiplierSpec (currentWord st)))) \<and>
         ms (ascii ''end.'') 600 = 260 \<and>
         ms (ascii ''pause,'') 600 = 140 \<and>
         ms (ascii ''quote.'' @ [0x22]) 600 = 260"
proof -
  have "scheduledDelay st = Some (ms (currentWord st) (wpm st))"
    using assms by (simp add: scheduledDelay_def)
  moreover have "ms (ascii ''end.'') 600 = 260"
    by (simp add: ms_def pause_eval number_eval)
  moreover have "ms (ascii ''pause,'') 600 = 140"
    by (simp add: ms_def pause_eval number_eval)
  moreover have "ms (ascii ''quote.'' @ [0x22]) 600 = 260"
    by (simp add: ms_def pause_eval number_eval)
  ultimately show ?thesis
    by (simp add: ms_def getPauseMultiplier_spec jsTimes_def jsDivide_def)
qed

theorem pause_delay_witness:
  "isPlaying chapterFixture \<and> 0 < wpm chapterFixture \<and> words chapterFixture \<noteq> [] \<and>
   currentWord chapterFixture = ascii ''four.'' \<and> wpm chapterFixture = 300 \<and>
   pauseMultiplierSpec (ascii ''four.'') = 2.6 \<and>
   scheduledDelay chapterFixture = Some 520"
proof -
  have a: "isPlaying chapterFixture" and b: "0 < wpm chapterFixture"
    and c: "words chapterFixture \<noteq> []"
    by (simp_all add: chapterFixture_def initialReader_def)
  have w: "currentWord chapterFixture = ascii ''four.''"
    by (simp add: currentWord_def chapterFixture_def initialReader_def)
  have d: "pauseMultiplierSpec (ascii ''four.'') = 2.6"
    by (simp add: pauseMultiplierSpec_def withoutTrailing_def endsIn_def splitWord_def
        wholeWord_def ascii_def class_defs)
  have r: "wpm chapterFixture = 300"
    by (simp add: chapterFixture_def initialReader_def)
  have v: "double (double (60000 / numberOfInt 300) * double 2.6) = 520"
    by (simp add: number_eval)
  have "scheduledDelay chapterFixture = Some 520"
    using pause_delay [OF a b c, unfolded w d r v] by simp
  with a b c w d r show ?thesis by simp
qed

text \<open>
  C1, as stated, fails at 700 words per minute on the word \<open>pause,\<close>: its multiplier is
  1.4 and 60000 / 700 times 1.4 is 120, but the scheduled delay is the double just below
  120.
\<close>

theorem pause_delay_700_counterexample:
  "isPlaying paceFixture \<and> wpm paceFixture = 700 \<and> currentWord paceFixture = ascii ''pause,'' \<and>
   pauseMultiplierSpec (ascii ''pause,'') = 1.4 \<and>
   60000 / real_of_int 700 * 1.4 = (120 :: real) \<and>
   scheduledDelay paceFixture = Some (120 - 1 / 2 ^ 46) \<and>
   scheduledDelay paceFixture \<noteq> Some (60000 / real_of_int 700 * 1.4)"
proof -
  have w: "currentWord paceFixture = ascii ''pause,''"
    by (simp add: currentWord_def paceFixture_def initialReader_def)
  have m: "pauseMultiplierSpec (ascii ''pause,'') = 1.4"
    by (simp add: pauseMultiplierSpec_def withoutTrailing_def endsIn_def splitWord_def
        wholeWord_def ascii_def class_defs)
  have v: "ms (ascii ''pause,'') 700 = 120 - 1 / 2 ^ 46"
    by (simp add: ms_def pause_eval number_eval)
  have s: "scheduledDelay paceFixture = Some (120 - 1 / 2 ^ 46)"
    using v by (simp add: scheduledDelay_def paceFixture_def initialReader_def currentWord_def)
  have p: "isPlaying paceFixture" and r: "wpm paceFixture = 700"
    by (simp_all add: paceFixture_def initialReader_def)
  show ?thesis
    using w m s p r by simp
qed


section \<open>Properties of the playback\<close>










text \<open>
  C9, as amended. The play operation flips the play flag whatever the rate and the
  stream are: from Stopped it always sets the flag. After it a tick is scheduled exactly
  when the flag was off, the rate is above 0 and the stream is not empty; with rate 0 or
  an empty stream the flag is set and no timer runs.
\<close>

theorem togglePlay_flag:
  "isPlaying (togglePlay st) = (\<not> isPlaying st) \<and>
   (scheduledDelay (togglePlay st) \<noteq> None) =
     (\<not> isPlaying st \<and> 0 < wpm st \<and> words st \<noteq> [])"
  by (simp add: togglePlay_def scheduledDelay_def)

theorem togglePlay_flag_witness:
  "\<not> isPlaying (initialReader\<lparr>words := [ascii ''go'']\<rparr>) \<and>
   isPlaying (togglePlay (initialReader\<lparr>words := [ascii ''go'']\<rparr>)) \<and>
   scheduledDelay (togglePlay (initialReader\<lparr>words := [ascii ''go'']\<rparr>)) \<noteq> None \<and>
   isPlaying (togglePlay (initialReader\<lparr>wpm := 0\<rparr>)) \<and>
   scheduledDelay (togglePlay (initialReader\<lparr>wpm := 0\<rparr>)) = None"
  using togglePlay_flag [of "initialReader\<lparr>words := [ascii ''go'']\<rparr>"]
    togglePlay_flag [of "initialReader\<lparr>wpm := 0\<rparr>"]
  by (simp add: initialReader_def)

text \<open>
  C9, as stated, fails on a stopped reader with rate 0 and an empty stream: play is not
  a no-op there, it sets the play flag.
\<close>

theorem togglePlay_rate0_counterexample:
  "\<not> isPlaying (initialReader\<lparr>wpm := 0\<rparr>) \<and> wpm (initialReader\<lparr>wpm := 0\<rparr>) = 0 \<and>
   words (initialReader\<lparr>wpm := 0\<rparr>) = [] \<and>
   isPlaying (togglePlay (initialReader\<lparr>wpm := 0\<rparr>)) \<and>
   togglePlay (initialReader\<lparr>wpm := 0\<rparr>) \<noteq> initialReader\<lparr>wpm := 0\<rparr>"
  by (simp add: togglePlay_def initialReader_def)


section \<open>Properties of the normalisation\<close>

text \<open>
  C5, as amended. The filter of the normaliser removes the empty candidates and nothing
  else: a candidate without a letter or digit has itself as its core, which is empty
  only when the candidate is. Every token of the output is non-empty.
\<close>

theorem normalizeWords_nonempty:
  "normalizeWords text = filter (\<lambda>w. w \<noteq> []) (candidates text) \<and>
   list_all (\<lambda>w. w \<noteq> []) (normalizeWords text)"
  by (simp add: normalizeWords_def splitWord_core_empty list_all_iff)

theorem normalizeWords_nonempty_witness:
  "normalizeWords (ascii ''a -- b'') = filter (\<lambda>w. w \<noteq> []) (candidates (ascii ''a -- b'')) \<and>
   candidates (ascii ''a -- b'') = [ascii ''a'', ascii ''--'', ascii ''b''] \<and>
   candidates (ascii ''  '') = [[]] \<and> normalizeWords (ascii ''  '') = []"
proof -
  have "candidates (ascii ''a -- b'') = [ascii ''a'', ascii ''--'', ascii ''b'']"
    by (simp add: candidates_def trim_def ascii_def class_defs)
  moreover have "candidates (ascii ''  '') = [[]]"
    by (simp add: candidates_def trim_def ascii_def class_defs)
  ultimately show ?thesis
    using normalizeWords_nonempty [of "ascii ''a -- b''"] normalizeWords_nonempty [of "ascii ''  ''"]
    by simp
qed

text \<open>
  C5, as stated, fails on the text \<open>a -- b\<close>: the fragment \<open>--\<close> has no letter or digit
  and is a token of the output.
\<close>

theorem normalizeWords_punctuation_counterexample:
  "normalizeWords (ascii ''a -- b'') = [ascii ''a'', ascii ''--'', ascii ''b''] \<and>
   \<not> list_ex isAlnum (ascii ''--'')"
  by (simp add: normalizeWords_def candidates_def trim_def splitWord_def wholeWord_def ascii_def
      class_defs)


section \<open>Properties of the restoration\<close>

text \<open>
  C8, as amended. When the book has been parsed, restoring the progress never throws out
  of \<open>parseBook\<close>. With nothing stored, the reader opens at position 0 with no
  bookmarks. With a stored text that is not JSON, the handler of \<open>parseBook\<close> catches the
  error and goes back to the library: the open-book flow is aborted. With a stored
  record, the reader opens with the recorded index as its position, as it is (an index
  outside the stream is not clamped), and with the recorded bookmarks; a field that the
  record lacks leaves position 0 or no bookmarks.
\<close>

theorem parseBook_restore:
  "parseBook (Inr (ws, t)) Missing initialReader =
     Opened (initialReader\<lparr>words := ws, toc := t, isLoading := False\<rparr>) \<and>
   parseBook (Inr (ws, t)) Corrupt initialReader = Back \<and>
   parseBook (Inr (ws, t)) (Record r) initialReader =
     Opened (initialReader\<lparr>words := ws, toc := t,
               currentIndex := (case savedCurrentIndex r of None \<Rightarrow> 0 | Some i \<Rightarrow> i),
               bookmarks := (case savedBookmarks r of None \<Rightarrow> [] | Some bs \<Rightarrow> bs),
               isLoading := False\<rparr>)"
  by (auto simp add: parseBook_def jsonParse_def restoreLocation_def initialReader_def Let_def
      split: option.splits)

theorem parseBook_restore_witness:
  "parseBook (Inr ([ascii ''a'', ascii ''b'', ascii ''c''], [])) Missing initialReader =
     Opened (initialReader\<lparr>words := [ascii ''a'', ascii ''b'', ascii ''c''], toc := [],
                           isLoading := False\<rparr>) \<and>
   currentIndex (initialReader\<lparr>words := [ascii ''a'', ascii ''b'', ascii ''c''], toc := [],
                           isLoading := False\<rparr>) = 0 \<and>
   bookmarks (initialReader\<lparr>words := [ascii ''a'', ascii ''b'', ascii ''c''], toc := [],
                           isLoading := False\<rparr>) = [] \<and>
   parseBook (Inr ([ascii ''a'', ascii ''b'', ascii ''c''], []))
       (Record \<lparr>savedCurrentIndex = Some 2, savedBookmarks = Some [1]\<rparr>) initialReader =
     Opened (initialReader\<lparr>words := [ascii ''a'', ascii ''b'', ascii ''c''], toc := [],
                           currentIndex := 2, bookmarks := [1], isLoading := False\<rparr>)"
  using parseBook_restore [of "[ascii ''a'', ascii ''b'', ascii ''c'']" "[]"
      "\<lparr>savedCurrentIndex = Some 2, savedBookmarks = Some [1]\<rparr>"]
  by (simp add: initialReader_def)

text \<open>
  C8, as stated, fails twice on a stream of three tokens: a corrupt record aborts the
  open-book flow, and the recorded index 999 becomes the position, beyond the last index.
\<close>

theorem parseBook_restore_counterexample:
  "parseBook (Inr ([ascii ''a'', ascii ''b'', ascii ''c''], [])) Corrupt initialReader = Back \<and>
   parseBook (Inr ([ascii ''a'', ascii ''b'', ascii ''c''], []))
       (Record \<lparr>savedCurrentIndex = Some 999, savedBookmarks = Some []\<rparr>) initialReader =
     Opened (initialReader\<lparr>words := [ascii ''a'', ascii ''b'', ascii ''c''], toc := [],
                           currentIndex := 999, bookmarks := [], isLoading := False\<rparr>) \<and>
   \<not> (999 :: int) \<le> int (length [ascii ''a'', ascii ''b'', ascii ''c'']) - 1"
  by (auto simp add: parseBook_def jsonParse_def restoreLocation_def initialReader_def Let_def)


section \<open>Properties of the context lines\<close>

declare lineBefore.simps [simp del] lineAfter.simps [simp del]
  linesBefore.simps [simp del] linesAfter.simps [simp del]

lemma joinSpace_Cons: "joinSpace (w # ws) = (if ws = [] then w else w @ SPACE # joinSpace ws)"
  by (cases ws) simp_all

lemma joinSpace_snoc: "joinSpace (ws @ [w]) = (if ws = [] then w else joinSpace ws @ SPACE # w)"
  by (induction ws rule: joinSpace.induct) simp_all

lemma joinSpace_pos: "ws \<noteq> [] \<Longrightarrow> \<forall>w\<in>set ws. w \<noteq> [] \<Longrightarrow> 0 < length (joinSpace ws)"
  by (cases ws) (auto simp: joinSpace_Cons)

lemma joinSpace_single: "length ws \<le> 1 \<Longrightarrow> ws \<noteq> [] \<Longrightarrow> joinSpace ws \<in> set ws"
  by (cases ws) auto

lemma lineBefore_inv:
  "lineBefore ws m l lw len = Inr (lw', l') \<Longrightarrow> \<forall>w\<in>set ws. w \<noteq> [] \<Longrightarrow>
   len = int (length (joinSpace lw)) \<Longrightarrow> set lw \<subseteq> set ws \<Longrightarrow> len \<le> m \<or> length lw \<le> 1 \<Longrightarrow>
   set lw' \<subseteq> set ws \<and> (int (length (joinSpace lw')) \<le> m \<or> length lw' \<le> 1)"
proof (induction ws m l lw len rule: lineBefore.induct)
  case (1 ws m l lw len)
  show ?case
  proof (cases "0 \<le> l \<and> l < int (length ws)")
    case False
    with "1.prems"(1) have "lw' = lw"
      by (auto simp: lineBefore.simps [of ws m l lw len] split: if_splits)
    with "1.prems" show ?thesis by simp
  next
    case True
    define w where "w = ws ! nat l"
    define add where "add = int (length w) + (if len > 0 then 1 else 0)"
    have "nat l < length ws" using True by linarith
    then have win: "w \<in> set ws" unfolding w_def by (rule nth_mem)
    have pos: "len > 0 \<longleftrightarrow> lw \<noteq> []"
    proof (cases "lw = []")
      case True
      then show ?thesis using "1.prems"(3) by simp
    next
      case False
      moreover have "\<forall>x\<in>set lw. x \<noteq> []" using "1.prems"(2,4) by blast
      ultimately have "0 < length (joinSpace lw)" by (rule joinSpace_pos)
      then show ?thesis using False "1.prems"(3) by simp
    qed
    have eq: "lineBefore ws m l lw len =
        (if len + add > m \<and> len > 0 then Inr (lw, l)
         else lineBefore ws m (l - 1) (w # lw) (len + add))"
      unfolding w_def add_def
      by (subst lineBefore.simps) (simp add: True Let_def)
    show ?thesis
    proof (cases "len + add > m \<and> len > 0")
      case stop: True
      with eq "1.prems"(1) have "lw' = lw" by simp
      with "1.prems" show ?thesis by simp
    next
      case go: False
      have rec: "lineBefore ws m (l - 1) (w # lw) (len + add) = Inr (lw', l')"
        using eq go "1.prems"(1) by simp
      have a: "len + add = int (length (joinSpace (w # lw)))"
        using pos "1.prems"(3) by (auto simp: add_def joinSpace_Cons)
      have b: "set (w # lw) \<subseteq> set ws" using win "1.prems"(4) by simp
      have c: "len + add \<le> m \<or> length (w # lw) \<le> 1"
        using go pos by auto
      show ?thesis
        using "1.IH" [OF _ _ w_def add_def go rec "1.prems"(2) a b c] True by simp
    qed
  qed
qed

lemma lineAfter_inv:
  "lineAfter ws m l lw len = Inr (lw', l') \<Longrightarrow> \<forall>w\<in>set ws. w \<noteq> [] \<Longrightarrow>
   len = int (length (joinSpace lw)) \<Longrightarrow> set lw \<subseteq> set ws \<Longrightarrow> len \<le> m \<or> length lw \<le> 1 \<Longrightarrow>
   set lw' \<subseteq> set ws \<and> (int (length (joinSpace lw')) \<le> m \<or> length lw' \<le> 1)"
proof (induction ws m l lw len rule: lineAfter.induct)
  case (1 ws m l lw len)
  show ?case
  proof (cases "0 \<le> l \<and> l < int (length ws)")
    case False
    with "1.prems"(1) have "lw' = lw"
      by (auto simp: lineAfter.simps [of ws m l lw len] split: if_splits)
    with "1.prems" show ?thesis by simp
  next
    case True
    define w where "w = ws ! nat l"
    define add where "add = int (length w) + (if len > 0 then 1 else 0)"
    have "nat l < length ws" using True by linarith
    then have win: "w \<in> set ws" unfolding w_def by (rule nth_mem)
    have pos: "len > 0 \<longleftrightarrow> lw \<noteq> []"
    proof (cases "lw = []")
      case True
      then show ?thesis using "1.prems"(3) by simp
    next
      case False
      moreover have "\<forall>x\<in>set lw. x \<noteq> []" using "1.prems"(2,4) by blast
      ultimately have "0 < length (joinSpace lw)" by (rule joinSpace_pos)
      then show ?thesis using False "1.prems"(3) by simp
    qed
    have eq: "lineAfter ws m l lw len =
        (if len + add > m \<and> len > 0 then Inr (lw, l)
         else lineAfter ws m (l + 1) (lw @ [w]) (len + add))"
      unfolding w_def add_def
      by (subst lineAfter.simps) (simp add: True Let_def)
    show ?thesis
    proof (cases "len + add > m \<and> len > 0")
      case stop: True
      with eq "1.prems"(1) have "lw' = lw" by simp
      with "1.prems" show ?thesis by simp
    next
      case go: False
      have rec: "lineAfter ws m (l + 1) (lw @ [w]) (len + add) = Inr (lw', l')"
        using eq go "1.prems"(1) by simp
      have a: "len + add = int (length (joinSpace (lw @ [w])))"
        using pos "1.prems"(3) by (auto simp: add_def joinSpace_snoc)
      have b: "set (lw @ [w]) \<subseteq> set ws" using win "1.prems"(4) by simp
      have c: "len + add \<le> m \<or> length (lw @ [w]) \<le> 1"
        using go pos by auto
      show ?thesis
        using "1.IH" [OF _ _ w_def add_def go rec "1.prems"(2) a b c] True by simp
    qed
  qed
qed


lemma lineBefore_total:
  "l < int (length ws) \<Longrightarrow>
   \<exists>lw' l'. lineBefore ws m l lw len = Inr (lw', l') \<and> l' < int (length ws)"
proof (induction ws m l lw len rule: lineBefore.induct)
  case (1 ws m l lw len)
  show ?case
  proof (cases "0 \<le> l")
    case False
    then show ?thesis using "1.prems" by (simp add: lineBefore.simps [of ws m l lw len])
  next
    case True
    define w where "w = ws ! nat l"
    define add where "add = int (length w) + (if len > 0 then 1 else 0)"
    have eq: "lineBefore ws m l lw len =
        (if len + add > m \<and> len > 0 then Inr (lw, l)
         else lineBefore ws m (l - 1) (w # lw) (len + add))"
      unfolding w_def add_def
      by (subst lineBefore.simps) (simp add: True "1.prems" Let_def)
    show ?thesis
    proof (cases "len + add > m \<and> len > 0")
      case stop: True
      then show ?thesis using eq "1.prems" by simp
    next
      case go: False
      have "l - 1 < int (length ws)" using "1.prems" by simp
      from "1.IH" [OF True "1.prems" w_def add_def go this] eq go show ?thesis by simp
    qed
  qed
qed

lemma lineAfter_total:
  "0 \<le> l \<Longrightarrow> \<exists>lw' l'. lineAfter ws m l lw len = Inr (lw', l') \<and> 0 \<le> l'"
proof (induction ws m l lw len rule: lineAfter.induct)
  case (1 ws m l lw len)
  show ?case
  proof (cases "l < int (length ws)")
    case False
    then show ?thesis using "1.prems" by (simp add: lineAfter.simps [of ws m l lw len])
  next
    case True
    define w where "w = ws ! nat l"
    define add where "add = int (length w) + (if len > 0 then 1 else 0)"
    have eq: "lineAfter ws m l lw len =
        (if len + add > m \<and> len > 0 then Inr (lw, l)
         else lineAfter ws m (l + 1) (lw @ [w]) (len + add))"
      unfolding w_def add_def
      by (subst lineAfter.simps) (simp add: True "1.prems" Let_def)
    show ?thesis
    proof (cases "len + add > m \<and> len > 0")
      case stop: True
      then show ?thesis using eq "1.prems" by simp
    next
      case go: False
      have "0 \<le> l + 1" using "1.prems" by simp
      from "1.IH" [OF True "1.prems" w_def add_def go this] eq go show ?thesis by simp
    qed
  qed
qed

lemma lineWithin_join:
  assumes "set lw \<subseteq> set ws" and "int (length (joinSpace lw)) \<le> m \<or> length lw \<le> 1"
    and "lw \<noteq> []"
  shows "lineWithin ws m \<lparr>lineText = joinSpace lw, distance = d\<rparr>"
proof (cases "int (length (joinSpace lw)) \<le> m")
  case True
  then show ?thesis by (simp add: lineWithin_def)
next
  case False
  with assms have "joinSpace lw \<in> set lw" by (intro joinSpace_single) auto
  with assms(1) show ?thesis by (auto simp: lineWithin_def)
qed

lemma linesBefore_inv:
  "linesBefore ws m i l acc = Inr r \<Longrightarrow> \<forall>w\<in>set ws. w \<noteq> [] \<Longrightarrow>
   list_all (lineWithin ws m) acc \<Longrightarrow> length acc \<le> i \<Longrightarrow> i \<le> 3 \<Longrightarrow>
   list_all (lineWithin ws m) r \<and> length r \<le> 3"
proof (induction ws m i l acc rule: linesBefore.induct)
  case (1 ws m i l acc)
  show ?case
  proof (cases "i < 3 \<and> 0 \<le> l")
    case False
    with "1.prems" show ?thesis by (simp add: linesBefore.simps [of ws m i l acc])
  next
    case True
    show ?thesis
    proof (cases "lineBefore ws m l [] 0")
      case (Inl e)
      with True "1.prems"(1) show ?thesis by (simp add: linesBefore.simps [of ws m i l acc])
    next
      case (Inr res)
      obtain lw l' where res: "res = (lw, l')" by (cases res)
      define acc' where "acc' =
        (if length lw > 0 then acc @ [\<lparr>lineText = joinSpace lw, distance = i + 1\<rparr>] else acc)"
      have rec: "linesBefore ws m (i + 1) l' acc' = Inr r"
        using True Inr res "1.prems"(1)
        by (simp add: linesBefore.simps [of ws m i l acc] acc'_def)
      have "set lw \<subseteq> set ws \<and> (int (length (joinSpace lw)) \<le> m \<or> length lw \<le> 1)"
        using lineBefore_inv [of ws m l "[]" 0 lw l'] Inr res "1.prems"(2) by simp
      then have a: "list_all (lineWithin ws m) acc'"
        using "1.prems"(3) by (auto simp: acc'_def intro: lineWithin_join)
      have b: "length acc' \<le> i + 1" using "1.prems"(4) by (simp add: acc'_def)
      have c: "i + 1 \<le> 3" using True by simp
      show ?thesis
        using "1.IH" [OF True Inr res [symmetric] rec [unfolded acc'_def] "1.prems"(2)
            a [unfolded acc'_def] b [unfolded acc'_def] c] .
    qed
  qed
qed

lemma linesAfter_inv:
  "linesAfter ws m i l acc = Inr r \<Longrightarrow> \<forall>w\<in>set ws. w \<noteq> [] \<Longrightarrow>
   list_all (lineWithin ws m) acc \<Longrightarrow> length acc \<le> i \<Longrightarrow> i \<le> 3 \<Longrightarrow>
   list_all (lineWithin ws m) r \<and> length r \<le> 3"
proof (induction ws m i l acc rule: linesAfter.induct)
  case (1 ws m i l acc)
  show ?case
  proof (cases "i < 3 \<and> l < int (length ws)")
    case False
    with "1.prems" show ?thesis by (simp add: linesAfter.simps [of ws m i l acc])
  next
    case True
    show ?thesis
    proof (cases "lineAfter ws m l [] 0")
      case (Inl e)
      with True "1.prems"(1) show ?thesis by (simp add: linesAfter.simps [of ws m i l acc])
    next
      case (Inr res)
      obtain lw l' where res: "res = (lw, l')" by (cases res)
      define acc' where "acc' =
        (if length lw > 0 then acc @ [\<lparr>lineText = joinSpace lw, distance = i + 1\<rparr>] else acc)"
      have rec: "linesAfter ws m (i + 1) l' acc' = Inr r"
        using True Inr res "1.prems"(1)
        by (simp add: linesAfter.simps [of ws m i l acc] acc'_def)
      have "set lw \<subseteq> set ws \<and> (int (length (joinSpace lw)) \<le> m \<or> length lw \<le> 1)"
        using lineAfter_inv [of ws m l "[]" 0 lw l'] Inr res "1.prems"(2) by simp
      then have a: "list_all (lineWithin ws m) acc'"
        using "1.prems"(3) by (auto simp: acc'_def intro: lineWithin_join)
      have b: "length acc' \<le> i + 1" using "1.prems"(4) by (simp add: acc'_def)
      have c: "i + 1 \<le> 3" using True by simp
      show ?thesis
        using "1.IH" [OF True Inr res [symmetric] rec [unfolded acc'_def] "1.prems"(2)
            a [unfolded acc'_def] b [unfolded acc'_def] c] .
    qed
  qed
qed


lemma linesBefore_total:
  "l < int (length ws) \<Longrightarrow> \<exists>r. linesBefore ws m i l acc = Inr r"
proof (induction ws m i l acc rule: linesBefore.induct)
  case (1 ws m i l acc)
  show ?case
  proof (cases "i < 3 \<and> 0 \<le> l")
    case False
    then show ?thesis by (auto simp add: linesBefore.simps [of ws m i l acc])
  next
    case True
    obtain lw l' where res: "lineBefore ws m l [] 0 = Inr (lw, l')" and l': "l' < int (length ws)"
      using lineBefore_total [OF "1.prems"] by blast
    show ?thesis
      using "1.IH" [OF True res refl l'] True res
      by (simp add: linesBefore.simps [of ws m i l acc])
  qed
qed

lemma linesAfter_total:
  "0 \<le> l \<Longrightarrow> \<exists>r. linesAfter ws m i l acc = Inr r"
proof (induction ws m i l acc rule: linesAfter.induct)
  case (1 ws m i l acc)
  show ?case
  proof (cases "i < 3 \<and> l < int (length ws)")
    case False
    then show ?thesis by (auto simp add: linesAfter.simps [of ws m i l acc])
  next
    case True
    obtain lw l' where res: "lineAfter ws m l [] 0 = Inr (lw, l')" and l': "0 \<le> l'"
      using lineAfter_total [OF "1.prems"] by blast
    show ?thesis
      using "1.IH" [OF True res refl l'] True res
      by (simp add: linesAfter.simps [of ws m i l acc])
  qed
qed


text \<open>
  C6, as amended. In alternate reading mode, for a stream of non-empty tokens and a
  position that is a valid index, the composer returns at most 3 lines before and at most
  3 lines after the current token, and the text of each line is at most
  \<open>max 18 contextLineChars\<close> long unless the line is a single token: the limit is never
  below 18. For the tokens \<open>a\<close>, \<open>bb\<close>, \<open>ccc\<close>, \<open>dddd\<close>, \<open>e\<close>, position 2 and 5 characters
  per line, the lines are within 18.
\<close>

theorem contextLines_bounds:
  assumes "altReadingMode st" and "\<forall>w\<in>set (words st). w \<noteq> []"
    and "0 \<le> currentIndex st" and "currentIndex st < int (length (words st))"
  shows "\<exists>bs as. contextLines st = Inr (Lines bs as) \<and> length bs \<le> 3 \<and> length as \<le> 3 \<and>
           list_all (lineWithin (words st) (max 18 (contextLineChars st))) (bs @ as)"
proof -
  let ?ws = "words st" and ?m = "max 18 (contextLineChars st)"
  obtain b where b: "linesBefore ?ws ?m 0 (currentIndex st - 1) [] = Inr b"
    using linesBefore_total [of "currentIndex st - 1" ?ws ?m 0 "[]"] assms(4) by auto
  obtain a where a: "linesAfter ?ws ?m 0 (currentIndex st + 1) [] = Inr a"
    using linesAfter_total [of "currentIndex st + 1" ?ws ?m 0 "[]"] assms(3) by auto
  have ib: "list_all (lineWithin ?ws ?m) b \<and> length b \<le> 3"
    using linesBefore_inv [OF b assms(2)] by simp
  have ia: "list_all (lineWithin ?ws ?m) a \<and> length a \<le> 3"
    using linesAfter_inv [OF a assms(2)] by simp
  have "contextLines st = Inr (Lines (rev b) a)"
    using assms(1,3,4) a b by (auto simp add: contextLines_def Let_def)
  with ia ib show ?thesis by (auto simp: list_all_iff)
qed

theorem contextLines_bounds_witness:
  "altReadingMode composeFixture \<and> list_all (\<lambda>w. w \<noteq> []) (words composeFixture) \<and>
   0 \<le> currentIndex composeFixture \<and>
   currentIndex composeFixture < int (length (words composeFixture)) \<and>
   (\<exists>bs as. contextLines composeFixture = Inr (Lines bs as) \<and> length bs \<le> 3 \<and> length as \<le> 3 \<and>
      list_all (lineWithin (words composeFixture) 18) (bs @ as))"
proof -
  have a: "altReadingMode composeFixture"
    and b: "\<forall>w\<in>set (words composeFixture). w \<noteq> []"
    and c: "0 \<le> currentIndex composeFixture"
    and d: "currentIndex composeFixture < int (length (words composeFixture))"
    and e: "contextLineChars composeFixture = 5"
    by (simp_all add: composeFixture_def initialReader_def ascii_def)
  show ?thesis
    using a b c d contextLines_bounds [OF a b c d] by (simp add: e list_all_iff)
qed

text \<open>
  C6, as stated, fails on its own example: with 5 characters per line the line after the
  current token is \<open>dddd e\<close>, two tokens and 6 characters.
\<close>

theorem contextLines_limit5_counterexample:
  "contextLines composeFixture =
     Inr (Lines [\<lparr>lineText = ascii ''a bb'', distance = 1\<rparr>]
                [\<lparr>lineText = ascii ''dddd e'', distance = 1\<rparr>]) \<and>
   contextLineChars composeFixture = 5 \<and>
   \<not> lineWithin (words composeFixture) 5 \<lparr>lineText = ascii ''dddd e'', distance = 1\<rparr>"
  by (simp add: contextLines_def composeFixture_def initialReader_def ascii_def SPACE_def
      lineWithin_def lineBefore.simps lineAfter.simps linesBefore.simps linesAfter.simps)

end
